theory Spec2Isabelle
  imports Main "HOL-Library.Sublist" "HOL-Library.Char_ord" "HOL-Library.List_Lexorder"
begin

section \<open>Paths and strings\<close>

text \<open>
  The collector works on resolved, absolute \<^verbatim>\<open>pathlib.Path\<close> values. A path is
  modelled by the list of its components below the file-system root, so
  \<^verbatim>\<open>/proj/lib/util.py\<close> is \<open>[''proj'', ''lib'', ''util.py'']\<close>. Strings are byte
  strings; Python compares \<^verbatim>\<open>str\<close> by code point, which on UTF-8 bytes is the
  same lexicographic order.
\<close>

type_synonym path = "string list"

definition str_path :: "path \<Rightarrow> string" where
  "str_path p = (if p = [] then ''/'' else concat (map (\<lambda>c. CHR ''/'' # c) p))"

text \<open>
  \<^verbatim>\<open>str.lower()\<close> on the ASCII letters. A non-ASCII character never lowers to one of
  the ASCII letters of \<^verbatim>\<open>venv\<close>, so for the substring test below nothing is lost.
\<close>

definition lower_char :: "char \<Rightarrow> char" where
  "lower_char c =
     (let n = (of_char c :: nat) in if 65 \<le> n \<and> n \<le> 90 then char_of (n + 32) else c)"

definition lower :: "string \<Rightarrow> string" where
  "lower s = map lower_char s"

text \<open>\<^verbatim>\<open>sub in s\<close> on strings: \<open>sub\<close> occurs in \<open>s\<close> as a contiguous block.\<close>

fun str_in :: "string \<Rightarrow> string \<Rightarrow> bool" where
  "str_in sub [] = (sub = [])"
| "str_in sub (c # cs) = (prefix sub (c # cs) \<or> str_in sub cs)"

text \<open>\<^verbatim>\<open>name.split('.')[0]\<close>: the text before the first dot.\<close>

definition first_component :: "string \<Rightarrow> string" where
  "first_component name = takeWhile (\<lambda>c. c \<noteq> CHR ''.'') name"

text \<open>
  \<^verbatim>\<open>Path.suffix\<close>: with \<open>i\<close> the index of the last dot of the final component, the
  suffix is the text from \<open>i\<close> on when \<open>0 < i < len(name) - 1\<close>, and empty otherwise.
\<close>

definition path_name :: "path \<Rightarrow> string" where
  "path_name p = (if p = [] then [] else last p)"

definition suffix_of :: "path \<Rightarrow> string" where
  "suffix_of p =
     (let name = path_name p;
          ext = rev (takeWhile (\<lambda>c. c \<noteq> CHR ''.'') (rev name))
      in if CHR ''.'' \<notin> set name then []
         else if 0 < length name - length ext - 1 \<and> ext \<noteq> [] then CHR ''.'' # ext
         else [])"

text \<open>
  \<^verbatim>\<open>p.relative_to(root)\<close> succeeds exactly when the components of \<open>root\<close> are a
  prefix of those of \<open>p\<close> (it raises \<^verbatim>\<open>ValueError\<close> otherwise), and then returns the
  remaining components.
\<close>

datatype error = SyntaxError | OSError | ImportRaised | ValueError

definition relative_to :: "path \<Rightarrow> path \<Rightarrow> error + path" where
  "relative_to p root = (if prefix root p then Inr (drop (length root) p) else Inl ValueError)"

text \<open>A Python \<^verbatim>\<open>set\<close> is kept as a duplicate-free list in insertion order.\<close>

definition set_add :: "'a \<Rightarrow> 'a list \<Rightarrow> 'a list" where
  "set_add x xs = (if x \<in> set xs then xs else xs @ [x])"

section \<open>Syntax trees and the import extractor\<close>

text \<open>
  The part of Python's \<^verbatim>\<open>ast\<close> that \<^verbatim>\<open>analyze_imports\<close> looks at. \<open>Import\<close> carries
  the dotted names of its aliases, \<open>ImportFrom\<close> the optional module name, the imported
  names and the relative level. \<open>Other\<close> stands for every other node kind with the
  child nodes it has (loops, \<^verbatim>\<open>try\<close>, \<^verbatim>\<open>with\<close>, expressions, ...).
\<close>

datatype node =
    Module "node list"
  | FunctionDef string "node list"
  | ClassDef string "node list"
  | If "node list" "node list"
  | Import "string list"
  | ImportFrom "string option" "string list" nat
  | Other "node list"

fun iter_child_nodes :: "node \<Rightarrow> node list" where
  "iter_child_nodes (Module body) = body"
| "iter_child_nodes (FunctionDef name body) = body"
| "iter_child_nodes (ClassDef name body) = body"
| "iter_child_nodes (If body orelse) = body @ orelse"
| "iter_child_nodes (Import names) = []"
| "iter_child_nodes (ImportFrom module names level) = []"
| "iter_child_nodes (Other children) = children"

text \<open>
  \<^verbatim>\<open>ast.walk\<close>: a queue starts with the root; the first node is taken off, its children
  are put at the end, and the node is yielded.
\<close>

function walk_queue :: "node list \<Rightarrow> node list" where
  "walk_queue [] = []"
| "walk_queue (n # todo) = n # walk_queue (todo @ iter_child_nodes n)"
  by pat_completeness auto
termination
proof (relation "measure (\<lambda>q. sum_list (map size q) + length q)")
  show "wf (measure (\<lambda>q. sum_list (map size q) + length q))"
    by simp
next
  fix n :: node and todo :: "node list"
  have "sum_list (map size (iter_child_nodes n)) + length (iter_child_nodes n) \<le> size n"
    by (cases n) (simp_all add: size_list_conv_sum_list)
  then show "(todo @ iter_child_nodes n, n # todo)
      \<in> measure (\<lambda>q. sum_list (map size q) + length q)"
    by simp
qed

definition walk :: "node \<Rightarrow> node list" where
  "walk tree = walk_queue [tree]"

text \<open>What one node adds to \<^verbatim>\<open>imports\<close> in the loop of \<^verbatim>\<open>analyze_imports\<close>.\<close>

fun node_imports :: "node \<Rightarrow> string list" where
  "node_imports (Import names) = map first_component names"
| "node_imports (ImportFrom module names level) =
     (case module of
        None \<Rightarrow> []
      | Some m \<Rightarrow> if m = [] then [] else [first_component m])"
| "node_imports _ = []"

definition tree_imports :: "node \<Rightarrow> string list" where
  "tree_imports tree = remdups (concat (map node_imports (walk tree)))"

section \<open>The environment of a run\<close>

text \<open>
  Everything the collector reads from outside is an input of the model:
  \<^item> \<open>fs\<close>, the file system: each entry is a directory or a file, and a file is either
    text that \<^verbatim>\<open>ast.parse\<close> accepts (with its tree) or text that it rejects;
  \<^item> \<open>modules\<close>, what \<^verbatim>\<open>importlib.import_module\<close> does with a name: a name that is
    not listed raises \<^verbatim>\<open>ImportError\<close>, \<open>Loaded f\<close> is a module whose \<^verbatim>\<open>__file__\<close>
    resolves to \<open>f\<close> (or that has none), \<open>Raises\<close> is any other exception;
  \<^item> \<open>dists\<close>, the installed distributions of \<^verbatim>\<open>pkg_resources.working_set\<close>: a
    requirement name with the distribution's key and version;
  \<^item> \<open>registry_before\<close> and \<open>registry_after\<close>, the contents of \<^verbatim>\<open>sys.modules\<close> when the
    Runtime Observer takes its snapshot and after the test run: a module name with the
    resolved \<^verbatim>\<open>__file__\<close> of the module, if it has one.
\<close>

datatype content = PySource node | Unparsable

datatype entry = File content | Dir

datatype import_result = Loaded "path option" | Raises

record env =
  gateway_path :: path
  root_path :: path
  output_arg :: "path option"
  fs :: "(path \<times> entry) list"
  modules :: "(string \<times> import_result) list"
  dists :: "(string \<times> string \<times> string) list"
  registry_before :: "(string \<times> path option) list"
  registry_after :: "(string \<times> path option) list"

text \<open>\<^verbatim>\<open>Path(output_path) if output_path else self.gateway_path.parent\<close>\<close>

definition output_path :: "env \<Rightarrow> path" where
  "output_path e = (case output_arg e of Some p \<Rightarrow> p | None \<Rightarrow> butlast (gateway_path e))"

definition config_extensions :: "string list" where
  "config_extensions = [''.txt'', ''.yaml'', ''.yml'', ''.json'']"

text \<open>
  The fields of \<^verbatim>\<open>DependencyCollector\<close> that change. \<open>analyzed\<close> is not a field of
  the class: it is a log of the calls of \<^verbatim>\<open>analyze_imports\<close> made by the Static Graph
  Walker, kept to state how often a file is analysed. (\<^verbatim>\<open>collected_modules\<close> is never
  read or written after construction and is left out.)
\<close>

record state =
  collected_files :: "path list"
  third_party_packages :: "string list"
  analyzed :: "path list"

definition init :: "env \<Rightarrow> state" where
  "init e = \<lparr>collected_files = set_add (gateway_path e) [],
            third_party_packages = [], analyzed = []\<rparr>"

section \<open>The operations of the collector\<close>

definition is_venv_module :: "path \<Rightarrow> bool" where
  "is_venv_module module_path \<longleftrightarrow>
     str_in ''venv'' (lower (str_path module_path))
     \<or> str_in ''site-packages'' (str_path module_path)"

text \<open>
  \<^verbatim>\<open>module_path.parts[-2]\<close>: the parts of an absolute path are the root \<^verbatim>\<open>/\<close> followed
  by the components, so the last but one part is missing for the root itself
  (\<^verbatim>\<open>IndexError\<close>, caught by the bare \<^verbatim>\<open>except\<close>).
\<close>

definition parent_part :: "path \<Rightarrow> string option" where
  "parent_part p =
     (let parts = ''/'' # p
      in if length parts < 2 then None else Some (parts ! (length parts - 2)))"

definition get_package_name :: "env \<Rightarrow> path \<Rightarrow> string option" where
  "get_package_name e module_path =
     (case parent_part module_path of
        None \<Rightarrow> None
      | Some req \<Rightarrow>
          (case map_of (dists e) req of
             None \<Rightarrow> None
           | Some (key, version) \<Rightarrow> Some (key @ ''=='' @ version)))"

definition find_module_path :: "env \<Rightarrow> string \<Rightarrow> state \<Rightarrow> error + (path option \<times> state)" where
  "find_module_path e module_name s =
     (case map_of (modules e) module_name of
        None \<Rightarrow> Inr (None, s)
      | Some Raises \<Rightarrow> Inl ImportRaised
      | Some (Loaded None) \<Rightarrow> Inr (None, s)
      | Some (Loaded (Some module_path)) \<Rightarrow>
          if is_venv_module module_path then
            (case get_package_name e module_path of
               Some package_name \<Rightarrow>
                 if package_name \<noteq> [] then
                   Inr (Some module_path,
                        s\<lparr>third_party_packages := set_add package_name (third_party_packages s)\<rparr>)
                 else Inr (Some module_path, s)
             | None \<Rightarrow> Inr (Some module_path, s))
          else Inr (Some module_path, s))"

definition is_project_module :: "env \<Rightarrow> path \<Rightarrow> bool" where
  "is_project_module e module_path \<longleftrightarrow>
     (if module_path = gateway_path e then False
      else case relative_to module_path (root_path e) of
             Inr rel \<Rightarrow> True
           | Inl err \<Rightarrow> False)"

text \<open>
  \<^verbatim>\<open>open(file_path)\<close> raises \<^verbatim>\<open>OSError\<close> when there is no such file, \<^verbatim>\<open>ast.parse\<close>
  raises \<^verbatim>\<open>SyntaxError\<close> on text it rejects; neither is caught.
\<close>

definition analyze_imports :: "env \<Rightarrow> path \<Rightarrow> error + string list" where
  "analyze_imports e file_path =
     (case map_of (fs e) file_path of
        Some (File (PySource tree)) \<Rightarrow> Inr (tree_imports tree)
      | Some (File Unparsable) \<Rightarrow> Inl SyntaxError
      | Some Dir \<Rightarrow> Inl OSError
      | None \<Rightarrow> Inl OSError)"

definition is_file :: "env \<Rightarrow> path \<Rightarrow> bool" where
  "is_file e p = (case map_of (fs e) p of Some (File c) \<Rightarrow> True | _ \<Rightarrow> False)"

text \<open>\<^verbatim>\<open>module_dir.rglob('*')\<close>: every entry of the file system strictly below the directory.\<close>

definition rglob :: "env \<Rightarrow> path \<Rightarrow> path list" where
  "rglob e dir = filter (\<lambda>p. strict_prefix dir p) (remdups (map fst (fs e)))"

definition is_config :: "path \<Rightarrow> bool" where
  "is_config file_path \<longleftrightarrow> lower (suffix_of file_path) \<in> set config_extensions"

fun sweep :: "env \<Rightarrow> path list \<Rightarrow> state \<Rightarrow> state" where
  "sweep e [] s = s"
| "sweep e (file_path # rest) s =
     (if is_config file_path \<and> is_project_module e file_path
      then sweep e rest (s\<lparr>collected_files := set_add file_path (collected_files s)\<rparr>)
      else sweep e rest s)"

definition collect_config_files :: "env \<Rightarrow> path \<Rightarrow> state \<Rightarrow> state" where
  "collect_config_files e module_path s =
     (if \<not> is_file e module_path then s
      else sweep e (rglob e (butlast module_path)) s)"

section \<open>The Runtime Observer\<close>

text \<open>
  \<^verbatim>\<open>collect_runtime_dependencies\<close>: the names in \<^verbatim>\<open>sys.modules\<close> after the test run that
  were not there at the snapshot, each looked up in the registry after the run. The
  test run itself is outside the model; its only effect here is \<open>registry_after\<close>.
\<close>

definition new_modules :: "env \<Rightarrow> string list" where
  "new_modules e =
     filter (\<lambda>n. n \<notin> set (map fst (registry_before e))) (remdups (map fst (registry_after e)))"

fun observe :: "env \<Rightarrow> string list \<Rightarrow> state \<Rightarrow> state" where
  "observe e [] s = s"
| "observe e (module_name # rest) s =
     (case map_of (registry_after e) module_name of
        Some (Some module_path) \<Rightarrow>
          if is_project_module e module_path then
            observe e rest
              (collect_config_files e module_path
                 (s\<lparr>collected_files := set_add module_path (collected_files s)\<rparr>))
          else observe e rest s
      | _ \<Rightarrow> observe e rest s)"

definition collect_runtime_dependencies :: "env \<Rightarrow> state \<Rightarrow> state" where
  "collect_runtime_dependencies e s = observe e (new_modules e) s"

section \<open>The Bundle Assembler\<close>

text \<open>
  \<^verbatim>\<open>create_requirements_txt\<close>: nothing is written when the set is empty; otherwise the
  file \<^verbatim>\<open>requirements.txt\<close> under the output path gets the entries of
  \<^verbatim>\<open>sorted(self.third_party_packages)\<close>, one per line. The result is the path of the
  file with its lines.
\<close>

definition create_requirements_txt :: "env \<Rightarrow> state \<Rightarrow> (path \<times> string list) option" where
  "create_requirements_txt e s =
     (if third_party_packages s \<noteq> [] then
        Some (output_path e @ [''requirements.txt''], sort (third_party_packages s))
      else None)"

text \<open>
  The result of \<^verbatim>\<open>copy_dependencies\<close>: the copies made, each a source with its target
  path, the two counters of the summary line, and the manifest. \<^verbatim>\<open>shutil.copy2\<close>
  raises \<^verbatim>\<open>OSError\<close> when the source is not a regular file, and that is not caught.
  Other failures of the file system (permissions, a full disk) are not modelled.
\<close>

record assembly =
  copies :: "(path \<times> path) list"
  copied_count :: nat
  config_count :: nat
  requirements :: "(path \<times> string list) option"

fun copy_files ::
  "env \<Rightarrow> path list \<Rightarrow> (path \<times> path) list \<times> nat \<times> nat
     \<Rightarrow> error + ((path \<times> path) list \<times> nat \<times> nat)" where
  "copy_files e [] acc = Inr acc"
| "copy_files e (file_path # rest) (made, copied, config) =
     (if is_project_module e file_path \<and> \<not> is_venv_module file_path then
        (case relative_to file_path (root_path e) of
           Inl err \<Rightarrow> copy_files e rest (made, copied, config)
         | Inr rel_path \<Rightarrow>
             let target_path = output_path e @ rel_path
             in if \<not> is_file e file_path then Inl OSError
                else if is_config file_path
                  then copy_files e rest (made @ [(file_path, target_path)], copied, config + 1)
                  else copy_files e rest (made @ [(file_path, target_path)], copied + 1, config))
      else copy_files e rest (made, copied, config))"

definition copy_dependencies :: "env \<Rightarrow> state \<Rightarrow> error + assembly" where
  "copy_dependencies e s =
     (case copy_files e (collected_files s) ([], 0, 0) of
        Inl err \<Rightarrow> Inl err
      | Inr (made, copied, config) \<Rightarrow>
          Inr \<lparr>copies = made, copied_count = copied, config_count = config,
               requirements = create_requirements_txt e s\<rparr>)"

section \<open>The Static Graph Walker\<close>

text \<open>
  The files that importing a module can ever resolve to: the walker only recurses into
  one of them, and only when it is not collected yet, so their number not yet collected
  bounds the depth of the recursion.
\<close>


definition module_files :: "env \<Rightarrow> path list" where
  "module_files e =
     concat (map (\<lambda>(name, r). case r of Loaded (Some f) \<Rightarrow> [f] | _ \<Rightarrow> []) (modules e))"

definition unvisited :: "env \<Rightarrow> state \<Rightarrow> nat" where
  "unvisited e s = card (set (module_files e) - set (collected_files s))"

lemma set_set_add [simp]: "set (set_add x xs) = insert x (set xs)"
  by (auto simp: set_add_def)

lemma distinct_set_add [simp]: "distinct (set_add x xs) = distinct xs"
  by (auto simp: set_add_def)

lemma sweep_third [simp]: "third_party_packages (sweep e ps s) = third_party_packages s"
  by (induction ps arbitrary: s) auto

lemma sweep_analyzed [simp]: "analyzed (sweep e ps s) = analyzed s"
  by (induction ps arbitrary: s) auto

lemma set_sweep:
  "set (collected_files (sweep e ps s)) =
     set (collected_files s) \<union> {p \<in> set ps. is_config p \<and> is_project_module e p}"
  by (induction ps arbitrary: s) auto

lemma distinct_sweep [simp]: "distinct (collected_files (sweep e ps s)) = distinct (collected_files s)"
  by (induction ps arbitrary: s) auto

lemma ccf_third [simp]:
  "third_party_packages (collect_config_files e p s) = third_party_packages s"
  by (simp add: collect_config_files_def)

lemma ccf_analyzed [simp]: "analyzed (collect_config_files e p s) = analyzed s"
  by (simp add: collect_config_files_def)

lemma ccf_distinct [simp]:
  "distinct (collected_files (collect_config_files e p s)) = distinct (collected_files s)"
  by (simp add: collect_config_files_def)

lemma ccf_mono: "set (collected_files s) \<subseteq> set (collected_files (collect_config_files e p s))"
  by (auto simp: collect_config_files_def set_sweep)

lemma find_module_path_collected:
  "find_module_path e n s = Inr (r, s1) \<Longrightarrow> collected_files s1 = collected_files s"
  by (auto simp: find_module_path_def split: option.splits import_result.splits if_splits)

lemma find_module_path_analyzed:
  "find_module_path e n s = Inr (r, s1) \<Longrightarrow> analyzed s1 = analyzed s"
  by (auto simp: find_module_path_def split: option.splits import_result.splits if_splits)

lemma find_module_path_in_files:
  "find_module_path e n s = Inr (Some f, s1) \<Longrightarrow> f \<in> set (module_files e)"
  by (force simp: find_module_path_def module_files_def
      split: option.splits import_result.splits if_splits dest: map_of_SomeD)

lemma unvisited_mono:
  "set (collected_files s) \<subseteq> set (collected_files s') \<Longrightarrow> unvisited e s' \<le> unvisited e s"
  unfolding unvisited_def by (intro card_mono) auto

lemma unvisited_less:
  assumes "f \<in> set (module_files e)" "f \<notin> set (collected_files s)"
    and "insert f (set (collected_files s)) \<subseteq> set (collected_files s')"
  shows "unvisited e s' < unvisited e s"
  unfolding unvisited_def using assms by (intro psubset_card_mono) auto

text \<open>
  \<^verbatim>\<open>collect_static_dependencies\<close> and the \<^verbatim>\<open>for import_name in imports\<close> loop in it
  (\<open>walk_imports\<close>), which calls it back for each new project module. An exception
  (\<open>Inl\<close>) ends the loop and every caller. Python iterates the set \<^verbatim>\<open>imports\<close> in an
  unspecified order; the model takes the names in the order of \<open>tree_imports\<close>.
\<close>

function collect_static_dependencies :: "env \<Rightarrow> path \<Rightarrow> state \<Rightarrow> error + state"
  and walk_imports :: "env \<Rightarrow> string list \<Rightarrow> state \<Rightarrow> error + state" where
  "collect_static_dependencies e file_path s =
     (case analyze_imports e file_path of
        Inl err \<Rightarrow> Inl err
      | Inr imports \<Rightarrow>
          walk_imports e imports
            (collect_config_files e file_path (s\<lparr>analyzed := analyzed s @ [file_path]\<rparr>)))"
| "walk_imports e [] s = Inr s"
| "walk_imports e (import_name # rest) s =
     (case find_module_path e import_name s of
        Inl err \<Rightarrow> Inl err
      | Inr (None, s1) \<Rightarrow> walk_imports e rest s1
      | Inr (Some module_path, s1) \<Rightarrow>
          if is_project_module e module_path \<and> module_path \<notin> set (collected_files s1) then
            (case collect_static_dependencies e module_path
                    (collect_config_files e module_path
                       (s1\<lparr>collected_files := set_add module_path (collected_files s1)\<rparr>)) of
               Inl err \<Rightarrow> Inl err
             | Inr s2 \<Rightarrow> walk_imports e rest s2)
          else walk_imports e rest s1)"
  by pat_completeness auto

lemma walker_dom_mono:
  "collect_static_dependencies_walk_imports_dom (Inl (e, f, s)) \<Longrightarrow>
     collect_static_dependencies e f s = Inr s' \<Longrightarrow>
     set (collected_files s) \<subseteq> set (collected_files s')"
  "collect_static_dependencies_walk_imports_dom (Inr (e, ns, s)) \<Longrightarrow>
     walk_imports e ns s = Inr s' \<Longrightarrow>
     set (collected_files s) \<subseteq> set (collected_files s')"
proof (induction e f s and e ns s arbitrary: s' and s'
    rule: collect_static_dependencies_walk_imports.pinduct)
  case (1 e file_path s)
  from "1.prems" "1.hyps" obtain imps where
    a: "analyze_imports e file_path = Inr imps" and
    w: "walk_imports e imps
          (collect_config_files e file_path (s\<lparr>analyzed := analyzed s @ [file_path]\<rparr>)) = Inr s'"
    by (auto simp: collect_static_dependencies.psimps split: sum.splits)
  from "1.IH"[OF a w] ccf_mono[of "s\<lparr>analyzed := analyzed s @ [file_path]\<rparr>" e file_path]
  show ?case by auto
next
  case (2 e s)
  then show ?case by (simp add: walk_imports.psimps)
next
  case (3 e import_name rest s)
  from "3.prems" "3.hyps" obtain r s1 where
    f: "find_module_path e import_name s = Inr (r, s1)"
    by (auto simp: walk_imports.psimps split: sum.splits)
  have c: "collected_files s1 = collected_files s"
    using f by (rule find_module_path_collected)
  show ?case
  proof (cases r)
    case None
    with "3.prems" "3.hyps" f have "walk_imports e rest s1 = Inr s'"
      by (simp add: walk_imports.psimps)
    from "3.IH"(1)[OF f refl None this] c show ?thesis by simp
  next
    case (Some p)
    show ?thesis
    proof (cases "is_project_module e p \<and> p \<notin> set (collected_files s1)")
      case True
      let ?s = "collect_config_files e p (s1\<lparr>collected_files := set_add p (collected_files s1)\<rparr>)"
      from True Some "3.prems" "3.hyps" f obtain s2 where
        r1: "collect_static_dependencies e p ?s = Inr s2" and
        r2: "walk_imports e rest s2 = Inr s'"
        by (auto simp: walk_imports.psimps split: sum.splits)
      from "3.IH"(2)[OF f refl Some True r1] "3.IH"(3)[OF f refl Some True r1 r2]
        ccf_mono[of "s1\<lparr>collected_files := set_add p (collected_files s1)\<rparr>" e p] c
      show ?thesis by auto
    next
      case False
      with Some "3.prems" "3.hyps" f have "walk_imports e rest s1 = Inr s'"
        by (auto simp: walk_imports.psimps)
      from "3.IH"(4)[OF f refl Some False this] c show ?thesis by simp
    qed
  qed
qed

text \<open>
  The recursion is well-founded at every argument, so every call of the walker returns:
  a recursive call on a file is made only for a module file that is not collected yet,
  and it collects the file first, so the number of module files not yet collected
  decreases; between such calls the list of imports left in the loop gets shorter.
\<close>

lemma walker_terminates: "All collect_static_dependencies_walk_imports_dom"
proof (rule "collect_static_dependencies_walk_imports.termination"
    [where R = "inv_image (less_than <*lex*> less_than <*lex*> less_than)
      (\<lambda>x. case x of
         Inl (e, f, s) \<Rightarrow> (unvisited e s, Suc 0, 0)
       | Inr (e, ns, s) \<Rightarrow> (unvisited e s, 0, length ns))"], goal_cases)
  case 1
  show ?case by (intro wf_inv_image wf_lex_prod wf_less_than)
next
  case (2 e file_path s imps)
  have "unvisited e (collect_config_files e file_path (s\<lparr>analyzed := analyzed s @ [file_path]\<rparr>))
      \<le> unvisited e s"
    using ccf_mono[of "s\<lparr>analyzed := analyzed s @ [file_path]\<rparr>" e file_path]
    by (intro unvisited_mono) simp
  then show ?case by auto
next
  case (3 e import_name rest s x y z)
  then have "collected_files z = collected_files s"
    by (auto dest: find_module_path_collected)
  then show ?case by (simp add: unvisited_def)
next
  case (4 e import_name rest s x y z p)
  then have f: "find_module_path e import_name s = Inr (Some p, z)" by simp
  have "unvisited e (collect_config_files e p (z\<lparr>collected_files := set_add p (collected_files z)\<rparr>))
      < unvisited e s"
  proof (rule unvisited_less)
    show "p \<in> set (module_files e)" using f by (rule find_module_path_in_files)
    show "p \<notin> set (collected_files s)" using 4 find_module_path_collected[OF f] by simp
    show "insert p (set (collected_files s))
        \<subseteq> set (collected_files (collect_config_files e p
              (z\<lparr>collected_files := set_add p (collected_files z)\<rparr>)))"
      using ccf_mono[of "z\<lparr>collected_files := set_add p (collected_files z)\<rparr>" e p]
        find_module_path_collected[OF f] by auto
  qed
  then show ?case by simp
next
  case (5 e import_name rest s x y z p s2)
  then have f: "find_module_path e import_name s = Inr (Some p, z)" by simp
  have "set (collected_files (collect_config_files e p
              (z\<lparr>collected_files := set_add p (collected_files z)\<rparr>))) \<subseteq> set (collected_files s2)"
    using 5 by (intro walker_dom_mono(1)) auto
  then have "set (collected_files s) \<subseteq> set (collected_files s2)"
    using ccf_mono[of "z\<lparr>collected_files := set_add p (collected_files z)\<rparr>" e p]
      find_module_path_collected[OF f] by auto
  then have "unvisited e s2 \<le> unvisited e s" by (rule unvisited_mono)
  then show ?case by auto
next
  case (6 e import_name rest s x y z p)
  then have "collected_files z = collected_files s"
    by (auto dest: find_module_path_collected)
  then show ?case by (simp add: unvisited_def)
qed

termination collect_static_dependencies
  by (rule walker_terminates)

text \<open>\<^verbatim>\<open>main\<close>: static discovery from the gateway, runtime discovery, assembly.\<close>

definition main :: "env \<Rightarrow> error + assembly" where
  "main e =
     (case collect_static_dependencies e (gateway_path e) (init e) of
        Inl err \<Rightarrow> Inl err
      | Inr s \<Rightarrow> copy_dependencies e (collect_runtime_dependencies e s))"

text \<open>
  Names for the test and the update of lines 165 to 169: a resolved path is \<open>fresh\<close> when
  it is a project module that is not collected yet, and \<open>enter\<close> is the state in which the
  walker recurses into it. \<open>grows\<close> says that both sets of \<open>s\<close> are kept in \<open>s'\<close>.
\<close>

definition fresh :: "env \<Rightarrow> path \<Rightarrow> state \<Rightarrow> bool" where
  "fresh e p s \<longleftrightarrow> is_project_module e p \<and> p \<notin> set (collected_files s)"

definition enter :: "env \<Rightarrow> path \<Rightarrow> state \<Rightarrow> state" where
  "enter e p s = collect_config_files e p (s\<lparr>collected_files := set_add p (collected_files s)\<rparr>)"

definition grows :: "state \<Rightarrow> state \<Rightarrow> bool" where
  "grows s s' \<longleftrightarrow>
     set (collected_files s) \<subseteq> set (collected_files s') \<and>
     set (third_party_packages s) \<subseteq> set (third_party_packages s')"

section \<open>The specification's reading of the extractor\<close>

text \<open>
  The specification describes the result of the Import Extractor by the import
  statements of the file: \<^verbatim>\<open>import x.y\<close> contributes \<^verbatim>\<open>x\<close>, \<^verbatim>\<open>from x.y import z\<close>
  contributes \<^verbatim>\<open>x\<close>, and nothing else contributes. \<open>import_names\<close> follows these words,
  by recursion over the statements and not by the queue of \<open>walk\<close>. \<open>named\<close> holds of the
  trees the parser builds: no alias and no module name of a \<^verbatim>\<open>from\<close> import is the
  empty string.
\<close>

fun import_names :: "node \<Rightarrow> string set" where
  "import_names (Import names) = first_component ` set names"
| "import_names (ImportFrom (Some m) names level) = {first_component m}"
| "import_names (ImportFrom None names level) = {}"
| "import_names (Module body) = (\<Union>n \<in> set body. import_names n)"
| "import_names (FunctionDef name body) = (\<Union>n \<in> set body. import_names n)"
| "import_names (ClassDef name body) = (\<Union>n \<in> set body. import_names n)"
| "import_names (If body orelse) =
     (\<Union>n \<in> set body. import_names n) \<union> (\<Union>n \<in> set orelse. import_names n)"
| "import_names (Other children) = (\<Union>n \<in> set children. import_names n)"

fun named :: "node \<Rightarrow> bool" where
  "named (Import names) = list_all (\<lambda>n. n \<noteq> []) names"
| "named (ImportFrom module names level) = (module \<noteq> Some [])"
| "named (Module body) = list_all named body"
| "named (FunctionDef name body) = list_all named body"
| "named (ClassDef name body) = list_all named body"
| "named (If body orelse) = (list_all named body \<and> list_all named orelse)"
| "named (Other children) = list_all named children"

section \<open>Example projects\<close>

text \<open>
  A project \<^verbatim>\<open>/proj\<close> whose entry point \<^verbatim>\<open>app.py\<close> imports \<^verbatim>\<open>lazy\<close> inside a function
  body only; \<^verbatim>\<open>lazy.py\<close> consists of \<^verbatim>\<open>from . import helper\<close>.
\<close>

definition tree_app :: node where
  "tree_app = Module [FunctionDef ''run'' [Import [''lazy'']]]"

definition env_lazy :: env where
  "env_lazy = \<lparr>gateway_path = [''proj'', ''app.py''], root_path = [''proj''],
     output_arg = Some [''out''],
     fs = [([''proj''], Dir),
           ([''proj'', ''app.py''], File (PySource tree_app)),
           ([''proj'', ''lazy.py''], File (PySource (Module [ImportFrom None [''helper''] 1]))),
           ([''proj'', ''helper.py''], File (PySource (Module [])))],
     modules = [(''lazy'', Loaded (Some [''proj'', ''lazy.py''])),
                (''helper'', Loaded (Some [''proj'', ''helper.py'']))],
     dists = [], registry_before = [], registry_after = []\<rparr>"

text \<open>
  What importing a name resolves to when it does not raise: the file of the module, if
  the module is found and has one.
\<close>

definition resolve :: "env \<Rightarrow> string \<Rightarrow> path option" where
  "resolve e n = (case map_of (modules e) n of Some (Loaded (Some p)) \<Rightarrow> Some p | _ \<Rightarrow> None)"

text \<open>The state the walker leaves for the project above.\<close>

definition state_lazy :: state where
  "state_lazy = \<lparr>collected_files = [[''proj'', ''app.py''], [''proj'', ''lazy.py'']],
          third_party_packages = [],
          analyzed = [[''proj'', ''app.py''], [''proj'', ''lazy.py'']]\<rparr>"




text \<open>
  The Bundle Assembler copies a collected file when \<open>copied\<close> holds of it, to
  \<open>copy_target\<close>: the output path followed by the path relative to the root.
\<close>

definition copy_target :: "env \<Rightarrow> path \<Rightarrow> path" where
  "copy_target e p = output_path e @ drop (length (root_path e)) p"

definition copied :: "env \<Rightarrow> path \<Rightarrow> bool" where
  "copied e p \<longleftrightarrow> is_project_module e p \<and> \<not> is_venv_module p"

text \<open>The assembly \<^verbatim>\<open>main\<close> produces for the project with \<^verbatim>\<open>lazy.py\<close>.\<close>

definition assembly_lazy :: assembly where
  "assembly_lazy = \<lparr>copies = [([''proj'', ''lazy.py''], [''out'', ''lazy.py''])],
     copied_count = 1, config_count = 0, requirements = None\<rparr>"

text \<open>
  A project with its virtual environment under the root: the entry point imports
  \<^verbatim>\<open>requests\<close>, installed in \<^verbatim>\<open>/proj/venv\<close>; and the state the walker leaves for it.
\<close>

definition p_venv :: path where
  "p_venv = [''proj'', ''venv'', ''lib'', ''python3'', ''site-packages'', ''requests'', ''__init__.py'']"

definition env_venv :: env where
  "env_venv = \<lparr>gateway_path = [''proj'', ''app.py''], root_path = [''proj''],
     output_arg = Some [''out''],
     fs = [([''proj''], Dir),
           ([''proj'', ''app.py''], File (PySource (Module [Import [''requests'']]))),
           (p_venv, File (PySource (Module [])))],
     modules = [(''requests'', Loaded (Some p_venv))],
     dists = [(''requests'', ''requests'', ''2.31.0'')],
     registry_before = [], registry_after = []\<rparr>"

definition state_venv :: state where
  "state_venv = \<lparr>collected_files = [[''proj'', ''app.py''], p_venv],
          third_party_packages = [''requests==2.31.0''],
          analyzed = [[''proj'', ''app.py''], p_venv]\<rparr>"





text \<open>
  What \<^verbatim>\<open>find_module_path\<close> does with a name, apart from the state: \<open>raises\<close> when the
  import raises something other than \<^verbatim>\<open>ImportError\<close>, and \<open>recorded\<close>, the manifest entry
  it adds, if any. A name is \<open>settled\<close> in a state when handling it again changes
  nothing: it does not raise, its entry is recorded, and the project module it resolves
  to is collected. \<open>swept\<close> are the files the configuration sweep next to \<open>f\<close> adds.
\<close>

definition raises :: "env \<Rightarrow> string \<Rightarrow> bool" where
  "raises e n \<longleftrightarrow> map_of (modules e) n = Some Raises"

definition recorded :: "env \<Rightarrow> string \<Rightarrow> string option" where
  "recorded e n =
     (case resolve e n of
        None \<Rightarrow> None
      | Some p \<Rightarrow>
          if is_venv_module p then
            (case get_package_name e p of
               Some package_name \<Rightarrow> if package_name \<noteq> [] then Some package_name else None
             | None \<Rightarrow> None)
          else None)"

definition settled :: "env \<Rightarrow> string \<Rightarrow> state \<Rightarrow> bool" where
  "settled e n s \<longleftrightarrow>
     \<not> raises e n \<and>
     (\<forall>pkg. recorded e n = Some pkg \<longrightarrow> pkg \<in> set (third_party_packages s)) \<and>
     (\<forall>p. resolve e n = Some p \<longrightarrow> is_project_module e p \<longrightarrow> p \<in> set (collected_files s))"

definition swept :: "env \<Rightarrow> path \<Rightarrow> path set" where
  "swept e f =
     (if is_file e f
      then {p \<in> set (rglob e (butlast f)). is_config p \<and> is_project_module e p} else {})"

text \<open>
  A file is \<open>closed\<close> in a state when it parses and all its imports are settled.
  \<open>trace_ok e s s' new\<close> relates the states before and after a call of the walker to
  the files \<open>new\<close> the call has analysed below the file it was called on: no file twice,
  none that was collected before the call, all of them collected after it and closed;
  whatever else was collected is a configuration file; and no duplicates arise in the
  list of collected files.
\<close>

definition closed :: "env \<Rightarrow> path \<Rightarrow> state \<Rightarrow> bool" where
  "closed e f s \<longleftrightarrow> (\<exists>imps. analyze_imports e f = Inr imps \<and> list_all (\<lambda>n. settled e n s) imps)"

definition trace_ok :: "env \<Rightarrow> state \<Rightarrow> state \<Rightarrow> path list \<Rightarrow> bool" where
  "trace_ok e s s' new \<longleftrightarrow>
     distinct new \<and> set new \<inter> set (collected_files s) = {} \<and>
     set new \<subseteq> set (collected_files s') \<and>
     (\<forall>p \<in> set (collected_files s') - set (collected_files s). is_config p \<or> p \<in> set new) \<and>
     list_all (\<lambda>g. closed e g s') new \<and>
     (distinct (collected_files s) \<longrightarrow> distinct (collected_files s'))"

text \<open>
  The import graph of the project: \<open>reachable e p\<close> when \<open>p\<close> is the entry point or a
  project module imported by a reachable file. \<open>modules_are_sources\<close> says that no module
  file carries one of the configuration suffixes, as is the case for the files Python
  imports.
\<close>

inductive reachable :: "env \<Rightarrow> path \<Rightarrow> bool" where
  entry: "reachable e (gateway_path e)"
| imported: "reachable e f \<Longrightarrow> analyze_imports e f = Inr imps \<Longrightarrow> n \<in> set imps \<Longrightarrow>
     resolve e n = Some p \<Longrightarrow> is_project_module e p \<Longrightarrow> reachable e p"

definition modules_are_sources :: "env \<Rightarrow> bool" where
  "modules_are_sources e \<longleftrightarrow> list_all (\<lambda>p. \<not> is_config p) (module_files e)"

text \<open>
  A project with a cycle: \<^verbatim>\<open>app.py\<close> imports \<^verbatim>\<open>a\<close>, \<^verbatim>\<open>a.py\<close> imports \<^verbatim>\<open>b\<close> and the
  installed package \<^verbatim>\<open>requests\<close>, \<^verbatim>\<open>b.py\<close> imports \<^verbatim>\<open>a\<close> and \<^verbatim>\<open>app\<close>; \<^verbatim>\<open>a.json\<close> lies next
  to them. And the state the walker leaves for it.
\<close>

definition env_cycle :: env where
  "env_cycle = \<lparr>gateway_path = [''proj'', ''app.py''], root_path = [''proj''],
     output_arg = Some [''out''],
     fs = [([''proj''], Dir),
           ([''proj'', ''app.py''], File (PySource (Module [Import [''a'']]))),
           ([''proj'', ''a.py''], File (PySource (Module [Import [''b''], Import [''requests'']]))),
           ([''proj'', ''b.py''], File (PySource (Module [ImportFrom (Some ''a'') [''f''] 0,
                                                          Import [''app'']]))),
           ([''proj'', ''a.json''], File Unparsable)],
     modules = [(''app'', Loaded (Some [''proj'', ''app.py''])),
                (''a'', Loaded (Some [''proj'', ''a.py''])),
                (''b'', Loaded (Some [''proj'', ''b.py''])),
                (''requests'', Loaded (Some [''usr'', ''lib'', ''python3'', ''site-packages'',
                                             ''requests'', ''__init__.py'']))],
     dists = [(''requests'', ''requests'', ''2.31.0'')],
     registry_before = [], registry_after = []\<rparr>"

definition state_cycle :: state where
  "state_cycle = \<lparr>collected_files =
       [[''proj'', ''app.py''], [''proj'', ''a.json''], [''proj'', ''a.py''], [''proj'', ''b.py'']],
     third_party_packages = [''requests==2.31.0''],
     analyzed = [[''proj'', ''app.py''], [''proj'', ''a.py''], [''proj'', ''b.py'']]\<rparr>"

section \<open>Facts about the walker\<close>

lemma csd_InrD:
  assumes "collect_static_dependencies e f s = Inr s'"
  obtains imps where "analyze_imports e f = Inr imps"
    "walk_imports e imps (collect_config_files e f (s\<lparr>analyzed := analyzed s @ [f]\<rparr>)) = Inr s'"
  using assms by (auto split: sum.splits)

lemma walk_imports_ConsD:
  assumes "walk_imports e (n # rest) s = Inr s'"
  obtains (skip) r s1 where "find_module_path e n s = Inr (r, s1)"
      "\<forall>p. r = Some p \<longrightarrow> \<not> fresh e p s1" "walk_imports e rest s1 = Inr s'"
  | (enter) p s1 s2 where "find_module_path e n s = Inr (Some p, s1)" "fresh e p s1"
      "collect_static_dependencies e p (enter e p s1) = Inr s2" "walk_imports e rest s2 = Inr s'"
proof -
  from assms obtain r s1 where f: "find_module_path e n s = Inr (r, s1)"
    by (auto split: sum.splits)
  show thesis
  proof (cases "\<exists>p. r = Some p \<and> fresh e p s1")
    case True
    then obtain p where p: "r = Some p" "fresh e p s1" by blast
    with assms f obtain s2 where
      "collect_static_dependencies e p (enter e p s1) = Inr s2" "walk_imports e rest s2 = Inr s'"
      by (auto simp: fresh_def enter_def split: sum.splits)
    with f p show thesis by (intro enter[of p s1 s2]) auto
  next
    case False
    with assms f have "walk_imports e rest s1 = Inr s'"
      by (cases r) (auto simp: fresh_def split: sum.splits if_splits)
    with f False show thesis by (intro skip[of r s1]) auto
  qed
qed


lemma walker_induct:
  assumes step: "\<And>e f s s' imps.
      analyze_imports e f = Inr imps \<Longrightarrow>
      walk_imports e imps (collect_config_files e f (s\<lparr>analyzed := analyzed s @ [f]\<rparr>)) = Inr s' \<Longrightarrow>
      Q e imps (collect_config_files e f (s\<lparr>analyzed := analyzed s @ [f]\<rparr>)) s' \<Longrightarrow>
      P e f s s'"
    and nil: "\<And>e s. Q e [] s s"
    and skip: "\<And>e n rest s r s1 s'.
      find_module_path e n s = Inr (r, s1) \<Longrightarrow>
      \<forall>p. r = Some p \<longrightarrow> \<not> fresh e p s1 \<Longrightarrow>
      walk_imports e rest s1 = Inr s' \<Longrightarrow> Q e rest s1 s' \<Longrightarrow>
      Q e (n # rest) s s'"
    and enter: "\<And>e n rest s p s1 s2 s'.
      find_module_path e n s = Inr (Some p, s1) \<Longrightarrow> fresh e p s1 \<Longrightarrow>
      collect_static_dependencies e p (enter e p s1) = Inr s2 \<Longrightarrow>
      P e p (enter e p s1) s2 \<Longrightarrow>
      walk_imports e rest s2 = Inr s' \<Longrightarrow> Q e rest s2 s' \<Longrightarrow>
      Q e (n # rest) s s'"
  shows "collect_static_dependencies e f s = Inr s' \<Longrightarrow> P e f s s'"
    and "walk_imports e ns s = Inr s' \<Longrightarrow> Q e ns s s'"
proof (induction e f s and e ns s arbitrary: s' and s'
    rule: collect_static_dependencies_walk_imports.induct)
  case (1 e f s)
  from "1.prems" obtain imps where a: "analyze_imports e f = Inr imps"
    and w: "walk_imports e imps (collect_config_files e f (s\<lparr>analyzed := analyzed s @ [f]\<rparr>)) = Inr s'"
    by (rule csd_InrD)
  from a w "1.IH"[OF a w] show ?case by (rule step)
next
  case (2 e s)
  then show ?case by (simp add: nil)
next
  case (3 e n rest s)
  from "3.prems" show ?case
  proof (cases rule: walk_imports_ConsD)
    case (skip r s1)
    have "Q e rest s1 s'"
    proof (cases r)
      case None
      from "3.IH"(1)[OF skip(1) refl None skip(3)] show ?thesis .
    next
      case (Some p)
      with skip(2) have "\<not> (is_project_module e p \<and> p \<notin> set (collected_files s1))"
        by (simp add: fresh_def)
      from "3.IH"(4)[OF skip(1) refl Some this skip(3)] show ?thesis .
    qed
    with skip show ?thesis by (intro assms(3)[of e n s r s1 rest s'])
  next
    case (enter p s1 s2)
    from enter(2) have fr: "is_project_module e p \<and> p \<notin> set (collected_files s1)"
      by (simp add: fresh_def)
    from enter(3) have r1: "collect_static_dependencies e p
        (collect_config_files e p (s1\<lparr>collected_files := set_add p (collected_files s1)\<rparr>)) = Inr s2"
      by (simp add: enter_def)
    have "P e p (enter e p s1) s2"
      using "3.IH"(2)[OF enter(1) refl refl fr r1] by (simp add: enter_def)
    moreover have "Q e rest s2 s'"
      using "3.IH"(3)[OF enter(1) refl refl fr r1 enter(4)] .
    ultimately show ?thesis
      using enter by (intro assms(4)[of e n s p s1 s2 rest s'])
  qed
qed


lemma grows_refl [simp]: "grows s s"
  by (simp add: grows_def)

lemma grows_trans: "grows s t \<Longrightarrow> grows t u \<Longrightarrow> grows s u"
  by (auto simp: grows_def)

lemma grows_ccf: "grows s (collect_config_files e p s)"
  using ccf_mono[of s e p] by (simp add: grows_def)

lemma grows_log: "grows s (s\<lparr>analyzed := a\<rparr>)"
  by (simp add: grows_def)

lemma grows_enter: "grows s (enter e p s)"
  unfolding enter_def
  by (rule grows_trans[OF _ grows_ccf]) (auto simp: grows_def)

lemma grows_find_module_path: "find_module_path e n s = Inr (r, s1) \<Longrightarrow> grows s s1"
  by (auto simp: find_module_path_def grows_def split: option.splits import_result.splits if_splits)

lemma walker_grows:
  shows "collect_static_dependencies e f s = Inr s' \<Longrightarrow> grows s s'"
    and "walk_imports e ns s = Inr s' \<Longrightarrow> grows s s'"
proof -
  let ?P = "\<lambda>(e::env) (f::path) s s'. grows s s'"
  let ?Q = "\<lambda>(e::env) (ns::string list) s s'. grows s s'"
  have 1: "?P e f s s'"
    if "?Q e imps (collect_config_files e f (s\<lparr>analyzed := analyzed s @ [f]\<rparr>)) s'"
    for e f s s' imps
    by (rule grows_trans[OF grows_trans[OF grows_log grows_ccf] that])
  have 3: "?Q e (n # rest) s s'"
    if "find_module_path e n s = Inr (r, s1)" "?Q e rest s1 s'" for e n rest s r s1 s'
    by (rule grows_trans[OF grows_find_module_path[OF that(1)] that(2)])
  have 4: "?Q e (n # rest) s s'"
    if "find_module_path e n s = Inr (Some p, s1)" "?P e p (enter e p s1) s2" "?Q e rest s2 s'"
    for e n rest s p s1 s2 s'
  proof -
    have "grows s s1" using that(1) by (rule grows_find_module_path)
    then have "grows s (enter e p s1)" by (rule grows_trans[OF _ grows_enter])
    then have "grows s s2" using that(2) by (rule grows_trans)
    then show ?thesis using that(3) by (rule grows_trans)
  qed
  show "grows s s'" if "collect_static_dependencies e f s = Inr s'"
    by (rule walker_induct(1)[where P = ?P and Q = ?Q, OF _ _ _ _ that])
      (blast intro: 1 3 4 grows_refl)+
  show "grows s s'" if "walk_imports e ns s = Inr s'"
    by (rule walker_induct(2)[where P = ?P and Q = ?Q, OF _ _ _ _ that])
      (blast intro: 1 3 4 grows_refl)+
qed

lemma find_module_path_resolve:
  "find_module_path e n s = Inr (r, s1) \<Longrightarrow> r = resolve e n"
  by (auto simp: find_module_path_def resolve_def split: option.splits import_result.splits if_splits)


lemma walk_imports_skip:
  "find_module_path e n s = Inr (r, s1) \<Longrightarrow> \<forall>p. r = Some p \<longrightarrow> \<not> fresh e p s1 \<Longrightarrow>
     walk_imports e (n # rest) s = walk_imports e rest s1"
  by (cases r) (auto simp: fresh_def)


section \<open>The Import Extractor\<close>

lemma import_names_node:
  "named n \<Longrightarrow>
     import_names n = set (node_imports n) \<union> (\<Union>c \<in> set (iter_child_nodes n). import_names c)"
proof (cases n)
  case (ImportFrom module names level)
  assume "named n"
  with ImportFrom show ?thesis by (cases module) auto
qed simp_all

lemma named_children: "named n \<Longrightarrow> list_all named (iter_child_nodes n)"
  by (cases n) simp_all

lemma walk_queue_import_names:
  "list_all named q \<Longrightarrow>
     (\<Union>n \<in> set (walk_queue q). set (node_imports n)) = (\<Union>n \<in> set q. import_names n)"
proof (induction q rule: walk_queue.induct)
  case 1
  show ?case by simp
next
  case (2 n todo)
  from "2.prems" have n: "named n" and t: "list_all named todo" by simp_all
  from n t have "list_all named (todo @ iter_child_nodes n)"
    by (simp add: named_children)
  from "2.IH"[OF this]
  have "(\<Union>m \<in> set (walk_queue (todo @ iter_child_nodes n)). set (node_imports m))
      = (\<Union>m \<in> set todo. import_names m) \<union> (\<Union>m \<in> set (iter_child_nodes n). import_names m)"
    by (simp add: Un_commute)
  moreover have "(\<Union>m \<in> set (walk_queue (n # todo)). set (node_imports m))
      = set (node_imports n)
        \<union> (\<Union>m \<in> set (walk_queue (todo @ iter_child_nodes n)). set (node_imports m))"
    by simp
  ultimately show ?case
    using import_names_node[OF n] by (simp only: list.set UN_insert) blast
qed





text \<open>
  Claim C8. For a file that parses, \<^verbatim>\<open>analyze_imports\<close> returns without raising, and
  the set it returns is exactly the set of first dotted components of the module names
  in the import statements of the file, wherever they stand: an alias \<^verbatim>\<open>x.y\<close> of an
  \<^verbatim>\<open>import\<close> gives \<^verbatim>\<open>x\<close>, the module \<^verbatim>\<open>x.y\<close> of a \<^verbatim>\<open>from\<close> import gives \<^verbatim>\<open>x\<close>, and there is
  no other name in the result.
\<close>

theorem analyze_imports_first_components:
  assumes "map_of (fs e) file_path = Some (File (PySource tree))" and "named tree"
  shows "\<exists>imps. analyze_imports e file_path = Inr imps \<and> distinct imps
           \<and> set imps = import_names tree"
  using assms walk_queue_import_names[of "[tree]"]
  by (simp add: analyze_imports_def tree_imports_def walk_def)

theorem analyze_imports_first_components_witness:
  "map_of (fs env_lazy) [''proj'', ''app.py''] = Some (File (PySource tree_app)) \<and>
   named tree_app \<and>
   (\<exists>imps. analyze_imports env_lazy [''proj'', ''app.py''] = Inr imps \<and> distinct imps
      \<and> set imps = import_names tree_app)"
proof -
  have h1: "map_of (fs env_lazy) [''proj'', ''app.py''] = Some (File (PySource tree_app))"
    by (simp add: env_lazy_def)
  have h2: "named tree_app"
    by (simp add: tree_app_def)
  from h1 h2 analyze_imports_first_components[OF h1 h2] show ?thesis
    by blast
qed

text \<open>
  Claim C10. A \<^verbatim>\<open>from . import z\<close> statement, whose node has no module name, adds
  nothing to the result of the extractor, at the head of any module body. A file that
  consists of such a statement has no imports for the walker: it resolves no module
  and collects nothing but the configuration files next to the file.
\<close>

theorem relative_from_import_ignored:
  "node_imports (ImportFrom None names level) = [] \<and>
   tree_imports (Module (ImportFrom None names level # body)) = tree_imports (Module body) \<and>
   (map_of (fs e) f = Some (File (PySource (Module [ImportFrom None names level]))) \<longrightarrow>
      collect_static_dependencies e f s
        = Inr (collect_config_files e f (s\<lparr>analyzed := analyzed s @ [f]\<rparr>)))"
  by (simp add: tree_imports_def walk_def analyze_imports_def)

theorem relative_from_import_ignored_witness:
  "map_of (fs env_lazy) [''proj'', ''lazy.py'']
     = Some (File (PySource (Module [ImportFrom None [''helper''] 1]))) \<and>
   collect_static_dependencies env_lazy [''proj'', ''lazy.py''] (init env_lazy)
     = Inr (collect_config_files env_lazy [''proj'', ''lazy.py'']
         ((init env_lazy)\<lparr>analyzed := analyzed (init env_lazy) @ [[''proj'', ''lazy.py'']]\<rparr>)) \<and>
   [''proj'', ''helper.py''] \<notin> set (collected_files (collect_config_files env_lazy [''proj'', ''lazy.py'']
         ((init env_lazy)\<lparr>analyzed := analyzed (init env_lazy) @ [[''proj'', ''lazy.py'']]\<rparr>)))"
proof -
  have h: "map_of (fs env_lazy) [''proj'', ''lazy.py'']
     = Some (File (PySource (Module [ImportFrom None [''helper''] 1])))"
    by (simp add: env_lazy_def)
  have n: "[''proj'', ''helper.py''] \<notin> set (collected_files (collect_config_files env_lazy [''proj'', ''lazy.py'']
         ((init env_lazy)\<lparr>analyzed := analyzed (init env_lazy) @ [[''proj'', ''lazy.py'']]\<rparr>)))"
    by code_simp
  from relative_from_import_ignored[of "[''helper'']" 1 "[]" env_lazy "[''proj'', ''lazy.py'']" "init env_lazy"]
    h n show ?thesis by blast
qed




section \<open>Recognising installation directories\<close>

text \<open>
  Claim C3. The test for an installation directory is meant to ignore letter case.
  The code lowers the path for \<^verbatim>\<open>venv\<close> only: \<^verbatim>\<open>site-packages\<close> is looked for in the
  path as it is written. So \<^verbatim>\<open>/opt/Site-Packages/foo.py\<close> is not recognised, while
  \<^verbatim>\<open>/opt/site-packages/foo.py\<close> and \<^verbatim>\<open>/opt/VEnv/foo.py\<close> are.
\<close>

theorem site_packages_is_case_sensitive:
  "is_venv_module [''opt'', ''Site-Packages'', ''foo.py''] = False \<and>
   is_venv_module [''opt'', ''site-packages'', ''foo.py''] = True \<and>
   is_venv_module [''opt'', ''VEnv'', ''foo.py''] = True"
  by code_simp

section \<open>The manifest\<close>




section \<open>Project ownership and the copy\<close>

lemma is_project_module_iff:
  "is_project_module e p \<longleftrightarrow> prefix (root_path e) p \<and> p \<noteq> gateway_path e"
  by (auto simp: is_project_module_def relative_to_def)

lemma copy_files_copies:
  "copy_files e ps (made, c1, c2) = Inr (made', c1', c2') \<Longrightarrow>
     made' = made @ map (\<lambda>p. (p, copy_target e p)) (filter (copied e) ps)"
proof (induction ps arbitrary: made c1 c2)
  case Nil
  then show ?case by simp
next
  case (Cons p ps)
  show ?case
  proof (cases "copied e p")
    case False
    then have "\<not> (is_project_module e p \<and> \<not> is_venv_module p)"
      by (simp add: copied_def)
    with Cons.prems have "copy_files e ps (made, c1, c2) = Inr (made', c1', c2')"
      by (simp only: copy_files.simps if_False)
    from Cons.IH[OF this] False show ?thesis by simp
  next
    case True
    then have r: "relative_to p (root_path e) = Inr (drop (length (root_path e)) p)"
      by (simp add: copied_def is_project_module_iff relative_to_def)
    from True have t: "is_project_module e p \<and> \<not> is_venv_module p"
      by (simp add: copied_def)
    from Cons.prems have "(if \<not> is_file e p then Inl OSError
        else if is_config p
          then copy_files e ps (made @ [(p, copy_target e p)], c1, c2 + 1)
          else copy_files e ps (made @ [(p, copy_target e p)], c1 + 1, c2)) = Inr (made', c1', c2')"
      by (simp only: copy_files.simps t if_True r sum.case Let_def copy_target_def simp_thms)
    then obtain c1'' c2'' where
      "copy_files e ps (made @ [(p, copy_target e p)], c1'', c2'') = Inr (made', c1', c2')"
      by (cases "is_file e p"; cases "is_config p") auto
    from Cons.IH[OF this] True show ?thesis by simp
  qed
qed

lemma copy_dependencies_copies:
  assumes "copy_dependencies e s = Inr out"
  shows "copies out = map (\<lambda>p. (p, copy_target e p)) (filter (copied e) (collected_files s))"
proof -
  from assms obtain made c1 c2 where
    c: "copy_files e (collected_files s) ([], 0, 0) = Inr (made, c1, c2)" and
    o: "copies out = made"
    by (auto simp: copy_dependencies_def split: sum.splits)
  from copy_files_copies[OF c] o show ?thesis by simp
qed

lemma observe_mono: "set (collected_files s) \<subseteq> set (collected_files (observe e ns s))"
proof (induction ns arbitrary: s)
  case Nil
  show ?case by simp
next
  case (Cons n ns)
  show ?case
  proof (cases "map_of (registry_after e) n")
    case None
    with Cons.IH[of s] show ?thesis by simp
  next
    case (Some r)
    show ?thesis
    proof (cases r)
      case None
      with Some Cons.IH[of s] show ?thesis by simp
    next
      case (Some p)
      let ?s = "collect_config_files e p (s\<lparr>collected_files := set_add p (collected_files s)\<rparr>)"
      have "set (collected_files s) \<subseteq> set (collected_files ?s)"
        using ccf_mono[of "s\<lparr>collected_files := set_add p (collected_files s)\<rparr>" e p] by auto
      with Cons.IH[of ?s] Cons.IH[of s] Some \<open>map_of (registry_after e) n = Some r\<close>
      show ?thesis by (cases "is_project_module e p") auto
    qed
  qed
qed

lemma gateway_in_init: "gateway_path e \<in> set (collected_files (init e))"
  by (simp add: init_def)

lemma copy_target_inj:
  assumes "prefix (root_path e) p" "prefix (root_path e) q" "copy_target e p = copy_target e q"
  shows "p = q"
proof -
  from assms(3) have "drop (length (root_path e)) p = drop (length (root_path e)) q"
    by (simp add: copy_target_def)
  moreover from assms(1,2) have "take (length (root_path e)) p = take (length (root_path e)) q"
    by (auto simp: prefix_def)
  ultimately show ?thesis by (metis append_take_drop_id)
qed

text \<open>
  Claim C2, as the code has it. \<^verbatim>\<open>is_project_module\<close> classifies a path as project-owned
  exactly when it lies under the root and is not the entry point; whether the path is
  inside an installation directory plays no part in discovery. The installation
  directories are excluded when the bundle is assembled: every file that is copied is a
  collected, project-owned file outside of them.
\<close>

theorem project_ownership:
  "(is_project_module e p \<longleftrightarrow> prefix (root_path e) p \<and> p \<noteq> gateway_path e) \<and>
   (copy_dependencies e s = Inr out \<longrightarrow>
      (\<forall>(src, tgt) \<in> set (copies out).
         src \<in> set (collected_files s) \<and> is_project_module e src \<and> \<not> is_venv_module src))"
proof (intro conjI impI)
  show "is_project_module e p \<longleftrightarrow> prefix (root_path e) p \<and> p \<noteq> gateway_path e"
    by (rule is_project_module_iff)
next
  assume "copy_dependencies e s = Inr out"
  from copy_dependencies_copies[OF this]
  show "\<forall>(src, tgt) \<in> set (copies out).
         src \<in> set (collected_files s) \<and> is_project_module e src \<and> \<not> is_venv_module src"
    by (auto simp: copied_def)
qed

theorem project_ownership_witness:
  "copy_dependencies env_lazy state_lazy = Inr assembly_lazy \<and>
   ([''proj'', ''lazy.py''], [''out'', ''lazy.py'']) \<in> set (copies assembly_lazy) \<and>
   [''proj'', ''lazy.py''] \<in> set (collected_files state_lazy) \<and>
   is_project_module env_lazy [''proj'', ''lazy.py''] \<and>
   \<not> is_venv_module [''proj'', ''lazy.py''] \<and>
   is_project_module env_venv p_venv \<and> prefix (root_path env_venv) p_venv \<and>
   p_venv \<noteq> gateway_path env_venv"
proof -
  have c: "copy_dependencies env_lazy state_lazy = Inr assembly_lazy"
    by code_simp
  have m: "([''proj'', ''lazy.py''], [''out'', ''lazy.py'']) \<in> set (copies assembly_lazy)"
    by (simp add: assembly_lazy_def)
  have p: "prefix (root_path env_venv) p_venv \<and> p_venv \<noteq> gateway_path env_venv"
    by code_simp
  from project_ownership[of env_lazy _ state_lazy assembly_lazy] c m
  have "[''proj'', ''lazy.py''] \<in> set (collected_files state_lazy) \<and>
    is_project_module env_lazy [''proj'', ''lazy.py''] \<and> \<not> is_venv_module [''proj'', ''lazy.py'']"
    by blast
  with project_ownership[of env_venv p_venv] c m p show ?thesis by blast
qed

text \<open>
  Claim C2 as stated fails: the file of \<^verbatim>\<open>requests\<close> lies under the root, inside
  \<^verbatim>\<open>venv\<close> and \<^verbatim>\<open>site-packages\<close>; it is classified project-owned, and the walker adds it
  to the collected files.
\<close>

theorem venv_path_classified_project_owned:
  "prefix (root_path env_venv) p_venv \<and> p_venv \<noteq> gateway_path env_venv \<and>
   is_venv_module p_venv \<and> is_project_module env_venv p_venv \<and>
   collect_static_dependencies env_venv (gateway_path env_venv) (init env_venv) = Inr state_venv \<and>
   p_venv \<in> set (collected_files state_venv)"
  by code_simp

text \<open>
  Claim C1, as the code has it. When static discovery returns, the entry point is in the
  collected files, and it still is after runtime discovery. The Bundle Assembler never
  copies it: it is the source of no copy, and when it lies under the root no copy is
  written to its place in the output tree.
\<close>

theorem entry_point_collected_not_copied:
  assumes "collect_static_dependencies e (gateway_path e) (init e) = Inr s"
  shows "gateway_path e \<in> set (collected_files s) \<and>
    gateway_path e \<in> set (collected_files (collect_runtime_dependencies e s)) \<and>
    (\<forall>out. copy_dependencies e (collect_runtime_dependencies e s) = Inr out \<longrightarrow>
       gateway_path e \<notin> fst ` set (copies out) \<and>
       (prefix (root_path e) (gateway_path e) \<longrightarrow>
          copy_target e (gateway_path e) \<notin> snd ` set (copies out)))"
proof (intro conjI allI impI)
  from walker_grows(1)[OF assms] gateway_in_init[of e]
  show g: "gateway_path e \<in> set (collected_files s)" by (auto simp: grows_def)
  with observe_mono[of s e "new_modules e"]
  show "gateway_path e \<in> set (collected_files (collect_runtime_dependencies e s))"
    by (auto simp: collect_runtime_dependencies_def)
next
  fix out assume "copy_dependencies e (collect_runtime_dependencies e s) = Inr out"
  from copy_dependencies_copies[OF this]
  show "gateway_path e \<notin> fst ` set (copies out)"
    by (auto simp: copied_def is_project_module_iff)
next
  fix out assume c: "copy_dependencies e (collect_runtime_dependencies e s) = Inr out"
    and r: "prefix (root_path e) (gateway_path e)"
  show "copy_target e (gateway_path e) \<notin> snd ` set (copies out)"
  proof
    assume "copy_target e (gateway_path e) \<in> snd ` set (copies out)"
    with copy_dependencies_copies[OF c] obtain p where
      p: "copied e p" "copy_target e p = copy_target e (gateway_path e)" by auto
    from p(1) have "prefix (root_path e) p" "p \<noteq> gateway_path e"
      by (simp_all add: copied_def is_project_module_iff)
    with copy_target_inj[OF this(1) r p(2)] show False by simp
  qed
qed

theorem entry_point_collected_not_copied_witness:
  "collect_static_dependencies env_lazy (gateway_path env_lazy) (init env_lazy) = Inr state_lazy \<and>
   copy_dependencies env_lazy (collect_runtime_dependencies env_lazy state_lazy) = Inr assembly_lazy \<and>
   prefix (root_path env_lazy) (gateway_path env_lazy) \<and>
   gateway_path env_lazy \<in> set (collected_files state_lazy) \<and>
   gateway_path env_lazy \<in> set (collected_files (collect_runtime_dependencies env_lazy state_lazy)) \<and>
   gateway_path env_lazy \<notin> fst ` set (copies assembly_lazy) \<and>
   copy_target env_lazy (gateway_path env_lazy) \<notin> snd ` set (copies assembly_lazy)"
proof -
  have h: "collect_static_dependencies env_lazy (gateway_path env_lazy) (init env_lazy)
      = Inr state_lazy"
    by code_simp
  have c: "copy_dependencies env_lazy (collect_runtime_dependencies env_lazy state_lazy)
      = Inr assembly_lazy"
    by code_simp
  have r: "prefix (root_path env_lazy) (gateway_path env_lazy)"
    by code_simp
  from entry_point_collected_not_copied[OF h] h c r show ?thesis by blast
qed

text \<open>
  Claim C1 as stated fails: for the project with \<^verbatim>\<open>lazy.py\<close> the run copies \<^verbatim>\<open>lazy.py\<close>
  only, and nothing is written to \<^verbatim>\<open>/out/app.py\<close>.
\<close>

theorem entry_point_not_copied:
  "collect_static_dependencies env_lazy (gateway_path env_lazy) (init env_lazy) = Inr state_lazy \<and>
   gateway_path env_lazy \<in> set (collected_files state_lazy) \<and>
   collect_runtime_dependencies env_lazy state_lazy = state_lazy \<and>
   copy_dependencies env_lazy state_lazy = Inr assembly_lazy \<and>
   main env_lazy = Inr assembly_lazy \<and>
   relative_to (gateway_path env_lazy) (root_path env_lazy) = Inr [''app.py''] \<and>
   output_path env_lazy @ [''app.py''] \<notin> snd ` set (copies assembly_lazy)"
  by code_simp

section \<open>Files that do not parse\<close>




section \<open>Running the walker again\<close>

lemma find_module_path_alt:
  "find_module_path e n s =
     (if raises e n then Inl ImportRaised
      else Inr (resolve e n,
        case recorded e n of
          None \<Rightarrow> s
        | Some pkg \<Rightarrow> s\<lparr>third_party_packages := set_add pkg (third_party_packages s)\<rparr>))"
  by (simp add: find_module_path_def raises_def resolve_def recorded_def
      split: option.splits import_result.splits)

lemma settled_grows: "settled e n s \<Longrightarrow> grows s s' \<Longrightarrow> settled e n s'"
  by (auto simp: settled_def grows_def)

lemma settled_log [simp]: "settled e n (s\<lparr>analyzed := a\<rparr>) = settled e n s"
  by (simp add: settled_def)

lemma find_module_path_settled:
  assumes "settled e n s"
  shows "find_module_path e n s = Inr (resolve e n, s)"
proof (cases "recorded e n")
  case None
  with assms show ?thesis by (simp add: find_module_path_alt settled_def)
next
  case (Some pkg)
  with assms have "pkg \<in> set (third_party_packages s)" by (simp add: settled_def)
  then have "s\<lparr>third_party_packages := set_add pkg (third_party_packages s)\<rparr> = s"
    by (simp add: set_add_def)
  with assms Some show ?thesis by (simp add: find_module_path_alt settled_def)
qed

lemma settled_not_fresh: "settled e n s \<Longrightarrow> resolve e n = Some p \<Longrightarrow> \<not> fresh e p s"
  by (auto simp: settled_def fresh_def)

lemma find_module_path_records:
  assumes "find_module_path e n s = Inr (r, s1)"
  shows "\<not> raises e n" and "recorded e n = Some pkg \<Longrightarrow> pkg \<in> set (third_party_packages s1)"
  using assms by (auto simp: find_module_path_alt split: if_splits)

lemma walk_imports_settles:
  "walk_imports e ns s = Inr s' \<Longrightarrow> n \<in> set ns \<Longrightarrow> settled e n s'"
proof (induction ns arbitrary: s)
  case Nil
  then show ?case by simp
next
  case (Cons a rest)
  from Cons.prems(1) show ?case
  proof (cases rule: walk_imports_ConsD)
    case (skip r s1)
    show ?thesis
    proof (cases "n = a")
      case True
      have r: "r = resolve e a" using skip(1) by (rule find_module_path_resolve)
      with skip(2) have "\<forall>p. resolve e a = Some p \<longrightarrow> is_project_module e p \<longrightarrow>
          p \<in> set (collected_files s1)"
        by (auto simp: fresh_def)
      with find_module_path_records[OF skip(1)] have "settled e a s1"
        by (auto simp: settled_def)
      with walker_grows(2)[OF skip(3)] True show ?thesis by (auto intro: settled_grows)
    next
      case False
      with Cons.prems(2) have "n \<in> set rest" by simp
      from Cons.IH[OF skip(3) this] show ?thesis .
    qed
  next
    case (enter q s1 s2)
    show ?thesis
    proof (cases "n = a")
      case True
      have r: "resolve e a = Some q"
        using find_module_path_resolve[OF enter(1)] by simp
      have g1: "grows s1 (enter e q s1)" by (rule grows_enter)
      have "q \<in> set (collected_files (enter e q s1))"
        using ccf_mono[of "s1\<lparr>collected_files := set_add q (collected_files s1)\<rparr>" e q]
        by (auto simp: enter_def)
      with r find_module_path_records[OF enter(1)] g1 have "settled e a (enter e q s1)"
        by (auto simp: settled_def grows_def)
      with walker_grows(1)[OF enter(3)] walker_grows(2)[OF enter(4)] True
      show ?thesis by (auto intro: settled_grows)
    next
      case False
      with Cons.prems(2) have "n \<in> set rest" by simp
      from Cons.IH[OF enter(4) this] show ?thesis .
    qed
  qed
qed

lemma walk_imports_settled:
  "list_all (\<lambda>n. settled e n s) ns \<Longrightarrow> walk_imports e ns s = Inr s"
proof (induction ns)
  case Nil
  show ?case by simp
next
  case (Cons n ns)
  then have st: "settled e n s" and rest: "walk_imports e ns s = Inr s" by simp_all
  have "walk_imports e (n # ns) s = walk_imports e ns s"
    using find_module_path_settled[OF st] settled_not_fresh[OF st]
    by (intro walk_imports_skip) auto
  with rest show ?case by simp
qed

lemma sweep_noop:
  "{p \<in> set ps. is_config p \<and> is_project_module e p} \<subseteq> set (collected_files s) \<Longrightarrow>
     sweep e ps s = s"
proof (induction ps)
  case Nil
  show ?case by simp
next
  case (Cons p ps)
  then have "sweep e ps s = s" by auto
  moreover have "is_config p \<and> is_project_module e p \<Longrightarrow>
      s\<lparr>collected_files := set_add p (collected_files s)\<rparr> = s"
    using Cons.prems by (auto simp: set_add_def)
  ultimately show ?case by auto
qed

lemma set_ccf:
  "set (collected_files (collect_config_files e f s)) = set (collected_files s) \<union> swept e f"
  by (auto simp: collect_config_files_def swept_def set_sweep)

lemma ccf_noop: "swept e f \<subseteq> set (collected_files s) \<Longrightarrow> collect_config_files e f s = s"
  by (auto simp: collect_config_files_def swept_def intro!: sweep_noop)

lemma csd_again:
  assumes "collect_static_dependencies e f s = Inr s1"
  shows "collect_static_dependencies e f s1 = Inr (s1\<lparr>analyzed := analyzed s1 @ [f]\<rparr>)"
proof -
  let ?s0 = "collect_config_files e f (s\<lparr>analyzed := analyzed s @ [f]\<rparr>)"
  let ?s1 = "s1\<lparr>analyzed := analyzed s1 @ [f]\<rparr>"
  from assms obtain imps where a: "analyze_imports e f = Inr imps"
    and w: "walk_imports e imps ?s0 = Inr s1"
    by (rule csd_InrD)
  have "swept e f \<subseteq> set (collected_files ?s0)" by (simp add: set_ccf)
  with walker_grows(2)[OF w] have "swept e f \<subseteq> set (collected_files ?s1)"
    by (auto simp: grows_def)
  then have c: "collect_config_files e f ?s1 = ?s1" by (rule ccf_noop)
  have "list_all (\<lambda>n. settled e n ?s1) imps"
    using walk_imports_settles[OF w] by (simp add: list_all_iff)
  then have "walk_imports e imps ?s1 = Inr ?s1" by (rule walk_imports_settled)
  with a c show ?thesis by (simp only: collect_static_dependencies.simps sum.case)
qed

text \<open>
  Claim C7. When the Static Graph Walker has returned from the entry point, running it
  again from the entry point in the state it left returns as well, and leaves the
  collected files as they were: none added, none removed, none twice. The recorded
  packages stay as they were too.
\<close>

theorem static_discovery_idempotent:
  assumes "collect_static_dependencies e (gateway_path e) (init e) = Inr s1"
  shows "\<exists>s2. collect_static_dependencies e (gateway_path e) s1 = Inr s2 \<and>
    collected_files s2 = collected_files s1 \<and>
    third_party_packages s2 = third_party_packages s1"
  using csd_again[OF assms] by simp

theorem static_discovery_idempotent_witness:
  "collect_static_dependencies env_cycle (gateway_path env_cycle) (init env_cycle) = Inr state_cycle \<and>
   (\<exists>s2. collect_static_dependencies env_cycle (gateway_path env_cycle) state_cycle = Inr s2 \<and>
      collected_files s2 = collected_files state_cycle \<and>
      third_party_packages s2 = third_party_packages state_cycle)"
proof -
  have h: "collect_static_dependencies env_cycle (gateway_path env_cycle) (init env_cycle)
      = Inr state_cycle"
    by code_simp
  from static_discovery_idempotent[OF h] h show ?thesis by blast
qed

section \<open>Termination and single visits\<close>

lemma closed_grows: "closed e f s \<Longrightarrow> grows s s' \<Longrightarrow> closed e f s'"
  by (auto simp: closed_def list_all_iff intro: settled_grows)

lemma trace_ok_nil: "trace_ok e s s []"
  by (simp add: trace_ok_def)

lemma set_enter:
  "set (collected_files (enter e p s)) = insert p (set (collected_files s)) \<union> swept e p"
  by (simp add: enter_def set_ccf)

lemma analyzed_enter [simp]: "analyzed (enter e p s) = analyzed s"
  by (simp add: enter_def)

lemma distinct_enter [simp]:
  "distinct (collected_files (enter e p s)) = distinct (collected_files s)"
  by (simp add: enter_def)

lemma swept_config: "p \<in> swept e f \<Longrightarrow> is_config p"
  by (auto simp: swept_def split: if_splits)

lemma walker_trace:
  shows "collect_static_dependencies e f s = Inr s' \<Longrightarrow>
      \<exists>new. analyzed s' = analyzed s @ f # new \<and> closed e f s' \<and> trace_ok e s s' new"
    and "walk_imports e ns s = Inr s' \<Longrightarrow>
      \<exists>new. analyzed s' = analyzed s @ new \<and> trace_ok e s s' new"
proof -
  let ?P = "\<lambda>e f s s'. \<exists>new. analyzed s' = analyzed s @ f # new \<and> closed e f s' \<and> trace_ok e s s' new"
  let ?Q = "\<lambda>(e::env) (ns::string list) s s'. \<exists>new. analyzed s' = analyzed s @ new \<and> trace_ok e s s' new"
  have 1: "?P e f s s'"
    if a: "analyze_imports e f = Inr imps"
      and w: "walk_imports e imps (collect_config_files e f (s\<lparr>analyzed := analyzed s @ [f]\<rparr>)) = Inr s'"
      and q: "?Q e imps (collect_config_files e f (s\<lparr>analyzed := analyzed s @ [f]\<rparr>)) s'"
    for e f s s' imps
  proof -
    let ?s0 = "collect_config_files e f (s\<lparr>analyzed := analyzed s @ [f]\<rparr>)"
    from q obtain new where n: "analyzed s' = analyzed ?s0 @ new" and t: "trace_ok e ?s0 s' new"
      by blast
    have c0: "set (collected_files ?s0) = set (collected_files s) \<union> swept e f"
      by (simp add: set_ccf)
    have "closed e f s'"
      using a walk_imports_settles[OF w] by (auto simp: closed_def list_all_iff)
    moreover have "trace_ok e s s' new"
      using t c0 swept_config[of _ e f] unfolding trace_ok_def by auto
    ultimately show ?thesis using n by simp
  qed
  have 2: "?Q e [] s s" for e s
    by (simp add: trace_ok_nil)
  have 3: "?Q e (n # rest) s s'"
    if "find_module_path e n s = Inr (r, s1)" "?Q e rest s1 s'" for e n rest s r s1 s'
    using that find_module_path_collected[OF that(1)] find_module_path_analyzed[OF that(1)]
    by (simp add: trace_ok_def)
  have 4: "?Q e (n # rest) s s'"
    if f: "find_module_path e n s = Inr (Some p, s1)" and fr: "fresh e p s1"
      and c: "collect_static_dependencies e p (enter e p s1) = Inr s2"
      and p: "?P e p (enter e p s1) s2"
      and w: "walk_imports e rest s2 = Inr s'" and q: "?Q e rest s2 s'"
    for e n rest s p s1 s2 s'
  proof -
    from p obtain new1 where n1: "analyzed s2 = analyzed s1 @ p # new1"
      and cl: "closed e p s2" and t1: "trace_ok e (enter e p s1) s2 new1"
      by auto
    from q obtain new2 where n2: "analyzed s' = analyzed s2 @ new2"
      and t2: "trace_ok e s2 s' new2"
      by blast
    have cs: "collected_files s1 = collected_files s" and as: "analyzed s1 = analyzed s"
      using f by (rule find_module_path_collected, rule find_module_path_analyzed)
    have g1: "set (collected_files (enter e p s1)) \<subseteq> set (collected_files s2)"
      using walker_grows(1)[OF c] by (simp add: grows_def)
    have g2: "grows s2 s'" using w by (rule walker_grows(2))
    then have g2': "set (collected_files s2) \<subseteq> set (collected_files s')"
      by (simp add: grows_def)
    have pn: "p \<notin> set (collected_files s)" using fr cs by (simp add: fresh_def)
    have en: "set (collected_files (enter e p s1)) = insert p (set (collected_files s)) \<union> swept e p"
      by (simp add: set_enter cs)
    let ?new = "p # new1 @ new2"
    have d: "distinct ?new"
      using t1 t2 en g1 unfolding trace_ok_def by auto
    have i: "set ?new \<inter> set (collected_files s) = {}"
      using t1 t2 en g1 pn unfolding trace_ok_def by auto
    have sub: "set ?new \<subseteq> set (collected_files s')"
      using t1 t2 en g1 g2' unfolding trace_ok_def by auto
    have ev: "\<forall>x \<in> set (collected_files s') - set (collected_files s). is_config x \<or> x \<in> set ?new"
    proof
      fix x assume x: "x \<in> set (collected_files s') - set (collected_files s)"
      show "is_config x \<or> x \<in> set ?new"
      proof (cases "x \<in> set (collected_files s2)")
        case False
        with x t2 show ?thesis unfolding trace_ok_def by auto
      next
        case True
        show ?thesis
        proof (cases "x \<in> set (collected_files (enter e p s1))")
          case False
          with True t1 show ?thesis unfolding trace_ok_def by auto
        next
          case True
          with x en swept_config[of x e p] show ?thesis by auto
        qed
      qed
    qed
    have cl': "list_all (\<lambda>g. closed e g s') ?new"
      using cl t1 t2 closed_grows[OF _ g2] unfolding trace_ok_def by (auto simp: list_all_iff)
    have dc: "distinct (collected_files s) \<longrightarrow> distinct (collected_files s')"
      using t1 t2 cs unfolding trace_ok_def by simp
    have "analyzed s' = analyzed s @ ?new" using n1 n2 as by simp
    moreover have "trace_ok e s s' ?new"
      unfolding trace_ok_def using d i sub ev cl' dc by blast
    ultimately show ?thesis by blast
  qed
  show "?P e f s s'" if "collect_static_dependencies e f s = Inr s'"
    apply (rule walker_induct(1)[where P = ?P and Q = ?Q, OF _ _ _ _ that])
       apply (erule (2) 1)
      apply (rule 2)
     apply (erule (1) 3)
    apply (erule 4; assumption)
    done
  show "?Q e ns s s'" if "walk_imports e ns s = Inr s'"
    apply (rule walker_induct(2)[where P = ?P and Q = ?Q, OF _ _ _ _ that])
       apply (erule (2) 1)
      apply (rule 2)
     apply (erule (1) 3)
    apply (erule 4; assumption)
    done
qed

lemma resolve_in_module_files: "resolve e n = Some p \<Longrightarrow> p \<in> set (module_files e)"
  by (force simp: resolve_def module_files_def
      split: option.splits import_result.splits dest: map_of_SomeD)

lemma count_list_distinct: "distinct xs \<Longrightarrow> x \<in> set xs \<Longrightarrow> count_list xs x = 1"
  by (induction xs) auto

lemma walker_from_entry:
  assumes "collect_static_dependencies e (gateway_path e) (init e) = Inr s"
  obtains new where "analyzed s = gateway_path e # new" "closed e (gateway_path e) s"
    "trace_ok e (init e) s new"
proof -
  from walker_trace(1)[OF assms] obtain new where
    "analyzed s = analyzed (init e) @ gateway_path e # new" "closed e (gateway_path e) s"
    "trace_ok e (init e) s new"
    by blast
  then show thesis by (intro that[of new]) (simp_all add: init_def)
qed

lemma reachable_analyzed:
  "reachable e p \<Longrightarrow> collect_static_dependencies e (gateway_path e) (init e) = Inr s \<Longrightarrow>
     modules_are_sources e \<Longrightarrow> p \<in> set (analyzed s)"
proof (induction rule: reachable.induct)
  case (entry e)
  from entry(1) obtain new where "analyzed s = gateway_path e # new"
    by (rule walker_from_entry)
  then show ?case by simp
next
  case (imported e f imps m q)
  from imported.prems(1) obtain new where n: "analyzed s = gateway_path e # new"
    and cg: "closed e (gateway_path e) s" and t: "trace_ok e (init e) s new"
    by (rule walker_from_entry)
  have "f \<in> set (analyzed s)" using imported.IH imported.prems by simp
  with n cg t have "closed e f s"
    by (auto simp: trace_ok_def list_all_iff)
  with imported.hyps(2,3) have "settled e m s"
    by (auto simp: closed_def list_all_iff)
  with imported.hyps(4,5) have q: "q \<in> set (collected_files s)"
    by (simp add: settled_def)
  from imported.hyps(5) have "q \<noteq> gateway_path e"
    by (simp add: is_project_module_iff)
  with q have "q \<in> set (collected_files s) - set (collected_files (init e))"
    by (simp add: init_def)
  with t have "is_config q \<or> q \<in> set new" by (auto simp: trace_ok_def)
  moreover from imported.prems(2) resolve_in_module_files[OF imported.hyps(4)]
  have "\<not> is_config q"
    by (simp add: modules_are_sources_def list_all_iff)
  ultimately show ?case using n by simp
qed

text \<open>
  Claim C6. The walk from the entry point terminates, whatever the import graph of the
  project, cycles included: its argument is in the domain on which the recursion is
  well-founded. When it returns, no file has been analysed twice, the collected files
  have no duplicates, and every analysed file is collected. Every file reachable in the
  import graph has then been analysed exactly once and is collected exactly once; this
  needs that module files are not configuration files, since the sweep collects those
  without analysing them.
\<close>

theorem walker_terminates_each_file_once:
  "collect_static_dependencies_walk_imports_dom (Inl (e, gateway_path e, init e)) \<and>
   (collect_static_dependencies e (gateway_path e) (init e) = Inr s \<longrightarrow>
      distinct (analyzed s) \<and> distinct (collected_files s) \<and>
      set (analyzed s) \<subseteq> set (collected_files s) \<and>
      (modules_are_sources e \<longrightarrow>
         (\<forall>p. reachable e p \<longrightarrow>
            count_list (analyzed s) p = 1 \<and> count_list (collected_files s) p = 1)))"
proof (intro conjI impI allI)
  show "collect_static_dependencies_walk_imports_dom (Inl (e, gateway_path e, init e))"
    using walker_terminates by blast
next
  assume run: "collect_static_dependencies e (gateway_path e) (init e) = Inr s"
  from run obtain new where n: "analyzed s = gateway_path e # new"
    and t: "trace_ok e (init e) s new"
    by (rule walker_from_entry)
  have g: "gateway_path e \<in> set (collected_files s)"
    using walker_grows(1)[OF run] by (auto simp: grows_def init_def)
  show da: "distinct (analyzed s)"
    using n t by (auto simp: trace_ok_def init_def)
  show dc: "distinct (collected_files s)"
    using t by (simp add: trace_ok_def init_def)
  show sub: "set (analyzed s) \<subseteq> set (collected_files s)"
    using n t g by (auto simp: trace_ok_def)
  fix p assume "modules_are_sources e" "reachable e p"
  then have pa: "p \<in> set (analyzed s)" using run by (intro reachable_analyzed)
  with sub have pc: "p \<in> set (collected_files s)" by blast
  from da pa show "count_list (analyzed s) p = 1" by (rule count_list_distinct)
  from dc pc show "count_list (collected_files s) p = 1" by (rule count_list_distinct)
qed

theorem walker_terminates_each_file_once_witness:
  "collect_static_dependencies env_cycle (gateway_path env_cycle) (init env_cycle) = Inr state_cycle \<and>
   modules_are_sources env_cycle \<and> reachable env_cycle [''proj'', ''b.py''] \<and>
   collect_static_dependencies_walk_imports_dom
     (Inl (env_cycle, gateway_path env_cycle, init env_cycle)) \<and>
   distinct (analyzed state_cycle) \<and> distinct (collected_files state_cycle) \<and>
   set (analyzed state_cycle) \<subseteq> set (collected_files state_cycle) \<and>
   count_list (analyzed state_cycle) [''proj'', ''b.py''] = 1 \<and>
   count_list (collected_files state_cycle) [''proj'', ''b.py''] = 1"
proof -
  have h: "collect_static_dependencies env_cycle (gateway_path env_cycle) (init env_cycle)
      = Inr state_cycle"
    by code_simp
  have m: "modules_are_sources env_cycle"
    by code_simp
  have r0: "reachable env_cycle (gateway_path env_cycle)" by (rule entry)
  have a0: "analyze_imports env_cycle (gateway_path env_cycle) = Inr [''a'']" by code_simp
  have m0: "''a'' \<in> set [''a'']" by simp
  have s0: "resolve env_cycle ''a'' = Some [''proj'', ''a.py'']" by code_simp
  have p0: "is_project_module env_cycle [''proj'', ''a.py'']" by code_simp
  have r1: "reachable env_cycle [''proj'', ''a.py'']"
    by (rule imported[OF r0 a0 m0 s0 p0])
  have a1: "analyze_imports env_cycle [''proj'', ''a.py''] = Inr [''b'', ''requests'']"
    by code_simp
  have m1: "''b'' \<in> set [''b'', ''requests'']" by simp
  have s1: "resolve env_cycle ''b'' = Some [''proj'', ''b.py'']" by code_simp
  have p1: "is_project_module env_cycle [''proj'', ''b.py'']" by code_simp
  have r: "reachable env_cycle [''proj'', ''b.py'']"
    by (rule imported[OF r1 a1 m1 s1 p1])
  from walker_terminates_each_file_once[of env_cycle state_cycle] h m r
  show ?thesis by blast
qed

end
